theory Spec2Isabelle
  imports Main "HOL-Library.Word" "HOL-Library.Sublist"
begin

section \<open>JavaScript strings\<close>

text \<open>
  A JavaScript string is a sequence of UTF-16 code units; \<open>length\<close>, \<open>slice\<close>,
  \<open>split\<close> and the non-unicode regular expressions of the sources all count
  code units. A string literal of the sources is written \<open>lit ''...''\<close>.
\<close>

type_synonym jschar = "16 word"
type_synonym jsstring = "jschar list"

definition lit :: "string \<Rightarrow> jsstring" where
  "lit s = map of_char s"

abbreviation (input) newline :: jschar where "newline \<equiv> 0x0A"
abbreviation (input) tab :: jschar where "tab \<equiv> 0x09"
abbreviation (input) apostrophe :: jschar where "apostrophe \<equiv> 0x27"
abbreviation (input) slash :: jschar where "slash \<equiv> 0x2F"
abbreviation (input) backslash :: jschar where "backslash \<equiv> 0x5C"
abbreviation (input) letter_n :: jschar where "letter_n \<equiv> 0x6E"
abbreviation (input) letter_t :: jschar where "letter_t \<equiv> 0x74"

text \<open>
  The code units that \<open>String.prototype.trim\<close> removes and that \<open>\s\<close> matches:
  WhiteSpace and LineTerminator of ECMA-262 (TAB, LF, VT, FF, CR, SP, NBSP, the
  space separators U+1680, U+2000..U+200A, U+202F, U+205F, U+3000, the line and
  paragraph separators U+2028 and U+2029, and the byte order mark U+FEFF).
\<close>

definition isWhiteSpace :: "jschar \<Rightarrow> bool" where
  "isWhiteSpace c \<longleftrightarrow>
     c \<in> {0x0009, 0x000A, 0x000B, 0x000C, 0x000D, 0x0020, 0x00A0, 0x1680,
          0x2028, 0x2029, 0x202F, 0x205F, 0x3000, 0xFEFF}
     \<or> (0x2000 \<le> c \<and> c \<le> 0x200A)"

text \<open>\<open>s.trim()\<close>\<close>

definition trim :: "jsstring \<Rightarrow> jsstring" where
  "trim s = rev (dropWhile isWhiteSpace (rev (dropWhile isWhiteSpace s)))"

text \<open>
  \<open>s.split(sep)\<close> for a non-empty string separator (\<open>'---'\<close> and \<open>'/'\<close> in the
  sources): the occurrences of \<open>sep\<close> are found from left to right and do not
  overlap; \<open>cur\<close> holds the piece being read, reversed. The empty string splits
  into the one piece \<open>''\<close>.
\<close>

function split_from :: "jsstring \<Rightarrow> jsstring \<Rightarrow> jsstring \<Rightarrow> jsstring list" where
  "split_from sep cur [] = [rev cur]"
| "split_from sep cur (x # xs) =
     (if sep \<noteq> [] \<and> prefix sep (x # xs)
      then rev cur # split_from sep [] (drop (length sep) (x # xs))
      else split_from sep (x # cur) xs)"
  by pat_completeness auto
termination
  by (relation "measure (\<lambda>(sep, cur, s). length s)") auto

definition js_split :: "jsstring \<Rightarrow> jsstring \<Rightarrow> jsstring list" where
  "js_split sep s = split_from sep [] s"

text \<open>\<open>parts.join(sep)\<close>\<close>

fun js_join :: "jsstring \<Rightarrow> jsstring list \<Rightarrow> jsstring" where
  "js_join sep [] = []"
| "js_join sep [p] = p"
| "js_join sep (p # q # ps) = p @ sep @ js_join sep (q # ps)"

text \<open>\<open>s.startsWith(p)\<close> is \<open>prefix p s\<close> and \<open>s.endsWith(p)\<close> is \<open>suffix p s\<close>.\<close>

text \<open>
  \<open>parts.findIndex(pred)\<close>: the index of the first element that satisfies
  \<open>pred\<close>, and -1 when there is none.
\<close>

fun findIndex :: "('a \<Rightarrow> bool) \<Rightarrow> 'a list \<Rightarrow> int" where
  "findIndex pred [] = - 1"
| "findIndex pred (x # xs) =
     (if pred x then 0
      else (let i = findIndex pred xs in if i < 0 then - 1 else i + 1))"

text \<open>
  Case-insensitive matching of a regular expression without the \<open>u\<close> flag
  compares the Canonicalize of both code units. The patterns of the sources are
  ASCII, and Canonicalize never maps a code unit above 127 to one below 128, so
  on the comparisons made here Canonicalize is the ASCII upper-casing below.
\<close>

definition canonicalize :: "jschar \<Rightarrow> jschar" where
  "canonicalize c = (if 0x61 \<le> c \<and> c \<le> 0x7A then c - 0x20 else c)"

text \<open>The literal \<open>pat\<close> matches, ignoring case, at the start of the text.\<close>

fun matches_ci :: "jsstring \<Rightarrow> jsstring \<Rightarrow> bool" where
  "matches_ci [] s = True"
| "matches_ci (p # ps) [] = False"
| "matches_ci (p # ps) (c # cs) =
     (canonicalize c = canonicalize p \<and> matches_ci ps cs)"

text \<open>
  \<open>pathParts[0].toLowerCase()\<close>. The argument is a segment of
  \<open>window.location.pathname\<close>, which the browser serialises percent-encoded:
  its code units are ASCII, and on ASCII \<open>toLowerCase\<close> maps \<open>A..Z\<close> to
  \<open>a..z\<close> and nothing else.
\<close>

definition toLowerCase :: "jsstring \<Rightarrow> jsstring" where
  "toLowerCase s = map (\<lambda>c. if 0x41 \<le> c \<and> c \<le> 0x5A then c + 0x20 else c) s"

section \<open>AskAI.tsx: the response normaliser\<close>

text \<open>The argument of a function typed \<open>string\<close> that may be missing at run time.\<close>

datatype jsarg = Undefined | Null | Str jsstring

text \<open>\<open>text || ''\<close>: undefined, null and the empty string are falsy.\<close>

fun or_empty :: "jsarg \<Rightarrow> jsstring" where
  "or_empty Undefined = []"
| "or_empty Null = []"
| "or_empty (Str s) = s"

text \<open>\<open>/^content=/i.test(s)\<close>\<close>

definition test_content :: "jsstring \<Rightarrow> bool" where
  "test_content s = matches_ci (lit ''content='') s"

text \<open>
  \<open>s.replace(/^content='?/i, '')\<close>: the marker and, greedily, one apostrophe
  after it.
\<close>

definition replace_content :: "jsstring \<Rightarrow> jsstring" where
  "replace_content s =
     (if matches_ci (lit ''content='') s
      then (case drop (length (lit ''content='')) s of
              [] \<Rightarrow> []
            | c # cs \<Rightarrow> if c = apostrophe then cs else c # cs)
      else s)"

text \<open>
  \<open>s.replace(/'$/i, '')\<close>: without the \<open>m\<close> flag \<open>$\<close> matches at the end of
  the input only.
\<close>

definition replace_final_apostrophe :: "jsstring \<Rightarrow> jsstring" where
  "replace_final_apostrophe s =
     (if s \<noteq> [] \<and> last s = apostrophe then butlast s else s)"

text \<open>
  \<open>s.replace(/\\x/g, r)\<close>: every occurrence of the two code units backslash,
  \<open>x\<close> becomes the one code unit \<open>r\<close>, scanning from the left.
\<close>

fun replace_escape :: "jschar \<Rightarrow> jschar \<Rightarrow> jsstring \<Rightarrow> jsstring" where
  "replace_escape x r (a # b # s) =
     (if a = backslash \<and> b = x then r # replace_escape x r s
      else a # replace_escape x r (b # s))"
| "replace_escape x r s = s"

definition unescape :: "jsstring \<Rightarrow> jsstring" where
  "unescape s = replace_escape letter_t tab (replace_escape letter_n newline s)"

definition normalizeResponseText :: "jsarg \<Rightarrow> jsstring" where
  "normalizeResponseText text =
     (let normalized = trim (or_empty text);
          normalized = (if test_content normalized
                        then replace_final_apostrophe (replace_content normalized)
                        else normalized);
          normalized = unescape normalized
      in trim normalized)"

text \<open>
  The parameter is typed \<open>string\<close>, but the handler passes on
  \<open>response.data.answer\<close>, which axios parses from JSON and leaves untyped. At
  run time the call can therefore see, besides the values of \<open>jsarg\<close>, a
  number, a boolean, an array or an object. \<open>Object\<close> stands for arrays and
  plain objects; a number is given by its integer value (a fraction behaves
  like a non-zero integer here).
\<close>

datatype jsvalue = Typed jsarg | Number int | Boolean bool | Object

text \<open>ToBoolean, which decides \<open>text || ''\<close>.\<close>

fun truthy :: "jsvalue \<Rightarrow> bool" where
  "truthy (Typed Undefined) = False"
| "truthy (Typed Null) = False"
| "truthy (Typed (Str s)) = (s \<noteq> [])"
| "truthy (Number n) = (n \<noteq> 0)"
| "truthy (Boolean b) = b"
| "truthy Object = True"

datatype js_error = TypeError

text \<open>
  The call on a run-time value. \<open>text || ''\<close> is \<open>''\<close> for a falsy value and
  the value itself otherwise; \<open>.trim()\<close> on a number, a boolean, an array or a
  plain object throws a TypeError, since none of them has a method \<open>trim\<close>.
  The function has no \<open>try\<close>, so the error reaches the caller.
\<close>

definition normalizeResponseText_untyped :: "jsvalue \<Rightarrow> js_error + jsstring" where
  "normalizeResponseText_untyped text =
     (if truthy text
      then (case text of
              Typed a \<Rightarrow> Inr (normalizeResponseText a)
            | _ \<Rightarrow> Inl TypeError)
      else Inr (normalizeResponseText (Str [])))"

section \<open>AskAI.tsx: splitting the answer in handleSubmit\<close>

text \<open>
  The part of \<open>handleSubmit\<close> that computes \<open>mainContent\<close> and
  \<open>systemGuidance\<close> of the assistant message from \<open>rawAnswer\<close>;
  \<open>systemGuidance\<close> stays undefined (\<open>None\<close>) unless it is assigned.
\<close>

record message_parts =
  mainContent :: jsstring
  systemGuidance :: "jsstring option"

text \<open>\<open>rawAnswer.split('---').map(seg => seg.trim()).filter(Boolean)\<close>\<close>

definition guidanceSegments :: "jsstring \<Rightarrow> jsstring list" where
  "guidanceSegments rawAnswer =
     filter (\<lambda>seg. seg \<noteq> []) (map trim (js_split (lit ''---'') rawAnswer))"

text \<open>\<open>s.replace(/^System guidance applied:\s*/i, '')\<close>\<close>

definition replace_guidance_label :: "jsstring \<Rightarrow> jsstring" where
  "replace_guidance_label s =
     (if matches_ci (lit ''System guidance applied:'') s
      then dropWhile isWhiteSpace (drop (length (lit ''System guidance applied:'')) s)
      else s)"

definition handleSubmit_answer :: "jsstring \<Rightarrow> message_parts" where
  "handleSubmit_answer rawAnswer =
     (let segs = guidanceSegments rawAnswer
      in if length segs > 1
         then \<lparr> mainContent = normalizeResponseText (Str (hd segs)),
                systemGuidance =
                  Some (normalizeResponseText
                          (Str (replace_guidance_label (js_join (lit '' --- '') (tl segs))))) \<rparr>
         else \<lparr> mainContent = normalizeResponseText (Str rawAnswer),
                systemGuidance = None \<rparr>)"

section \<open>api.ts: the API base URL\<close>

definition APP_ROUTES :: "jsstring list" where
  "APP_ROUTES = [lit '''', lit ''login'', lit ''ask-ai'', lit ''uploads'',
                 lit ''reports'', lit ''dashboard'']"

text \<open>\<open>APP_ROUTES.includes(part.toLowerCase())\<close>\<close>

definition isAppRoute :: "jsstring \<Rightarrow> bool" where
  "isAppRoute part \<longleftrightarrow> toLowerCase part \<in> set APP_ROUTES"

text \<open>
  \<open>document.querySelector('base')\<close>: no base element, or one whose
  \<open>getAttribute('href')\<close> is null (\<open>None\<close>) or a string.
\<close>

datatype base_tag = NoBaseTag | BaseTag "jsstring option"

text \<open>\<open>pathname.replace(/^\/+|\/+$/g, '')\<close>: the slashes at both ends go.\<close>

definition cleanPath :: "jsstring \<Rightarrow> jsstring" where
  "cleanPath pathname =
     rev (dropWhile (\<lambda>c. c = slash) (rev (dropWhile (\<lambda>c. c = slash) pathname)))"

text \<open>\<open>cleanPath.split('/').filter(part => part && part !== 'index.html')\<close>\<close>

definition pathParts :: "jsstring \<Rightarrow> jsstring list" where
  "pathParts pathname =
     filter (\<lambda>part. part \<noteq> [] \<and> part \<noteq> lit ''index.html'')
       (js_split (lit ''/'') (cleanPath pathname))"

text \<open>
  The block guarded by \<open>pathParts.length > 1\<close>: \<open>Some\<close> is its \<open>return\<close>,
  \<open>None\<close> is falling through to the base tag.
\<close>

definition beforeRoute :: "jsstring list \<Rightarrow> jsstring option" where
  "beforeRoute parts =
     (if length parts > 1
      then (let routeIndex = findIndex isAppRoute parts
            in if routeIndex > 0
               then Some (lit ''/'' @ js_join (lit ''/'') (take (nat routeIndex) parts))
               else None)
      else None)"

text \<open>
  The base tag block and the final \<open>return ''\<close>;
  \<open>baseHref.replace(/\/$/, '')\<close> drops one slash at the end.
\<close>

definition fromBaseTag :: "base_tag \<Rightarrow> jsstring" where
  "fromBaseTag baseTag =
     (case baseTag of
        NoBaseTag \<Rightarrow> []
      | BaseTag None \<Rightarrow> []
      | BaseTag (Some baseHref) \<Rightarrow>
          if baseHref \<noteq> [] \<and> baseHref \<noteq> lit ''/'' \<and> prefix (lit ''/'') baseHref
          then (let basePath = (if last baseHref = slash then butlast baseHref else baseHref)
                in if basePath \<noteq> [] then basePath else [])
          else [])"

text \<open>
  \<open>detectBasePath\<close>, given \<open>window.location.pathname\<close> and the base element of
  the document. In a browser, where both exist, no statement of the body throws,
  so the \<open>catch\<close> branch (which also ends in \<open>return ''\<close>) is not taken.
\<close>

definition detectBasePath :: "jsstring \<Rightarrow> base_tag \<Rightarrow> jsstring" where
  "detectBasePath pathname baseTag =
     (let parts = pathParts pathname
      in case parts of
           [] \<Rightarrow> []
         | first # rest \<Rightarrow>
             if \<not> isAppRoute first then lit ''/'' @ first
             else (case beforeRoute parts of
                     Some basePath \<Rightarrow> basePath
                   | None \<Rightarrow> fromBaseTag baseTag))"

text \<open>\<open>process.env\<close>: a variable is a string or undefined (\<open>None\<close>).\<close>

record process_env =
  REACT_APP_API_BASE_URL :: "jsstring option"
  PUBLIC_URL :: "jsstring option"

text \<open>\<open>s.endsWith('/') ? s.slice(0, -1) : s\<close>\<close>

definition dropFinalSlash :: "jsstring \<Rightarrow> jsstring" where
  "dropFinalSlash s = (if suffix (lit ''/'') s then butlast s else s)"

text \<open>The value of Option 1 for the override \<open>u\<close>.\<close>

definition fromOverride :: "jsstring \<Rightarrow> jsstring" where
  "fromOverride u =
     (let apiUrl = trim u;
          cleanUrl = dropFinalSlash apiUrl
      in if suffix (lit ''/api'') cleanUrl then cleanUrl else cleanUrl @ lit ''/api'')"

text \<open>
  \<open>getApiBaseUrl\<close>: Option 1 when \<open>REACT_APP_API_BASE_URL\<close> is truthy (set and
  not empty), Option 2 when \<open>PUBLIC_URL || ''\<close> is neither empty nor \<open>/\<close>,
  Option 3 otherwise.
\<close>

definition getApiBaseUrl :: "process_env \<Rightarrow> jsstring \<Rightarrow> base_tag \<Rightarrow> jsstring" where
  "getApiBaseUrl env pathname baseTag =
     (case REACT_APP_API_BASE_URL env of
        Some (c # cs) \<Rightarrow> fromOverride (c # cs)
      | _ \<Rightarrow>
        (let publicUrl = (case PUBLIC_URL env of Some p \<Rightarrow> p | None \<Rightarrow> [])
         in if publicUrl \<noteq> [] \<and> publicUrl \<noteq> lit ''/''
            then dropFinalSlash publicUrl @ lit ''/api''
            else detectBasePath pathname baseTag @ lit ''/api''))"

section \<open>Auxiliary notions\<close>

text \<open>A text that \<open>trim\<close> leaves alone: empty, or with no white space at either end.\<close>

definition trimmed :: "jsstring \<Rightarrow> bool" where
  "trimmed s \<longleftrightarrow> s = [] \<or> (\<not> isWhiteSpace (hd s) \<and> \<not> isWhiteSpace (last s))"

text \<open>The text contains the two code units backslash, \<open>x\<close> next to each other.\<close>

fun has_escape :: "jschar \<Rightarrow> jsstring \<Rightarrow> bool" where
  "has_escape x (a # b # s) = ((a = backslash \<and> b = x) \<or> has_escape x (b # s))"
| "has_escape x s = False"

text \<open>The defining equations that evaluate the model on a literal.\<close>

lemmas string_eval = lit_def trim_def isWhiteSpace_def canonicalize_def toLowerCase_def
  js_split_def suffix_to_prefix
lemmas normalize_eval = normalizeResponseText_def test_content_def replace_content_def
  replace_final_apostrophe_def unescape_def
lemmas answer_eval = handleSubmit_answer_def guidanceSegments_def replace_guidance_label_def
lemmas api_eval = getApiBaseUrl_def fromOverride_def dropFinalSlash_def detectBasePath_def
  pathParts_def cleanPath_def isAppRoute_def APP_ROUTES_def beforeRoute_def fromBaseTag_def

section \<open>Properties of trim\<close>

lemma dropWhile_last: "dropWhile P xs \<noteq> [] \<Longrightarrow> last (dropWhile P xs) = last xs"
  by (induction xs) (auto split: if_splits)

lemma trimmed_trim: "trimmed (trim s)"
proof (cases "trim s = []")
  case True
  then show ?thesis by (simp add: trimmed_def)
next
  case False
  define d where "d = dropWhile isWhiteSpace s"
  define e where "e = dropWhile isWhiteSpace (rev d)"
  have t: "trim s = rev e" by (simp add: trim_def d_def e_def)
  with False have e: "e \<noteq> []" by simp
  then have d: "d \<noteq> []" by (auto simp add: e_def)
  have "\<not> isWhiteSpace (hd e)" using e unfolding e_def by (rule hd_dropWhile)
  moreover have "last e = last (rev d)" using e unfolding e_def by (rule dropWhile_last)
  then have "last e = hd d" using d by (simp add: last_rev)
  moreover have "\<not> isWhiteSpace (hd d)" using d unfolding d_def by (rule hd_dropWhile)
  ultimately show ?thesis using e by (simp add: trimmed_def t hd_rev last_rev)
qed

lemma trim_trimmed:
  assumes "trimmed s"
  shows "trim s = s"
proof (cases "s = []")
  case True
  then show ?thesis by (simp add: trim_def)
next
  case False
  with assms have h: "\<not> isWhiteSpace (hd s)" and l: "\<not> isWhiteSpace (last s)"
    by (simp_all add: trimmed_def)
  from False h have "dropWhile isWhiteSpace s = s" by (cases s) simp_all
  moreover from False l have "dropWhile isWhiteSpace (rev s) = rev s"
    by (cases "rev s") (simp_all add: last_rev hd_rev [symmetric])
  ultimately show ?thesis by (simp add: trim_def)
qed

lemma length_trim: "length (trim s) \<le> length s"
proof -
  have "length (trim s) \<le> length (dropWhile isWhiteSpace s)"
    unfolding trim_def by (simp only: length_rev) (metis length_dropWhile_le length_rev)
  also have "\<dots> \<le> length s" by (rule length_dropWhile_le)
  finally show ?thesis .
qed

lemma dropWhile_rev_append:
  assumes "p \<noteq> []" and "\<not> P (last p)"
  shows "rev (dropWhile P (rev (p @ r))) = p @ rev (dropWhile P (rev r))"
proof -
  have "dropWhile P (rev r @ rev p) = dropWhile P (rev r) @ rev p"
  proof (cases "\<forall>x \<in> set (rev r). P x")
    case True
    then have "dropWhile P (rev r @ rev p) = dropWhile P (rev p)"
      by (intro dropWhile_append2) auto
    moreover from assms have "dropWhile P (rev p) = rev p"
      by (cases "rev p") (simp_all add: hd_rev [symmetric])
    moreover from True have "dropWhile P (rev r) = []" by simp
    ultimately show ?thesis by simp
  next
    case False
    then show ?thesis by (auto simp add: dropWhile_append1)
  qed
  then show ?thesis by simp
qed

section \<open>Properties of case-insensitive matching\<close>

lemma whitespace_canonicalize: "isWhiteSpace c \<Longrightarrow> canonicalize c = c"
  by (auto simp add: isWhiteSpace_def canonicalize_def word_le_nat_alt)

lemma canonicalize_not_whitespace:
  "canonicalize c = canonicalize p \<Longrightarrow> \<not> isWhiteSpace (canonicalize p) \<Longrightarrow> \<not> isWhiteSpace c"
  using whitespace_canonicalize by fastforce

lemma matches_ci_length: "matches_ci p s \<Longrightarrow> length p \<le> length s"
  by (induction p s rule: matches_ci.induct) auto

lemma matches_ci_append: "matches_ci p s \<Longrightarrow> matches_ci p (s @ r)"
  by (induction p s rule: matches_ci.induct) auto

lemma matches_ci_take: "matches_ci p s \<Longrightarrow> matches_ci p (take (length p) s)"
  by (induction p s rule: matches_ci.induct) auto

lemma matches_ci_hd:
  "matches_ci p s \<Longrightarrow> p \<noteq> [] \<Longrightarrow> s \<noteq> [] \<and> canonicalize (hd s) = canonicalize (hd p)"
  by (induction p s rule: matches_ci.induct) auto

lemma matches_ci_last:
  "matches_ci p s \<Longrightarrow> p \<noteq> [] \<Longrightarrow>
   take (length p) s \<noteq> [] \<and> canonicalize (last (take (length p) s)) = canonicalize (last p)"
  by (induction p s rule: matches_ci.induct) auto

text \<open>
  A match of a pattern that neither starts nor ends with white space survives
  \<open>trim\<close>, which only shortens what follows the match.
\<close>

lemma trim_keeps_match:
  assumes m: "matches_ci p s" and p: "p \<noteq> []"
    and h: "\<not> isWhiteSpace (canonicalize (hd p))"
    and l: "\<not> isWhiteSpace (canonicalize (last p))"
  shows "trim s = take (length p) s @ rev (dropWhile isWhiteSpace (rev (drop (length p) s)))"
proof -
  from matches_ci_hd [OF m p] h have "s \<noteq> []" and "\<not> isWhiteSpace (hd s)"
    by (simp, metis canonicalize_not_whitespace)
  then have d: "dropWhile isWhiteSpace s = s" by (cases s) simp_all
  from matches_ci_last [OF m p] l
  have "take (length p) s \<noteq> []" and "\<not> isWhiteSpace (last (take (length p) s))"
    by (simp, metis canonicalize_not_whitespace)
  then have "rev (dropWhile isWhiteSpace (rev (take (length p) s @ drop (length p) s)))
        = take (length p) s @ rev (dropWhile isWhiteSpace (rev (drop (length p) s)))"
    by (rule dropWhile_rev_append)
  with d show ?thesis by (simp add: trim_def)
qed

lemma test_content_trim:
  assumes "test_content s"
  shows "test_content (trim s)"
proof -
  from assms have m: "matches_ci (lit ''content='') s" by (simp add: test_content_def)
  have "trim s = take (length (lit ''content='')) s
                 @ rev (dropWhile isWhiteSpace (rev (drop (length (lit ''content='')) s)))"
    using m by (rule trim_keeps_match) (simp_all add: string_eval)
  moreover have "matches_ci (lit ''content='') (take (length (lit ''content='')) s)"
    using m by (rule matches_ci_take)
  ultimately show ?thesis by (simp add: test_content_def matches_ci_append)
qed

section \<open>Properties of the escape replacement\<close>

lemma replace_escape_id: "\<not> has_escape x s \<Longrightarrow> replace_escape x r s = s"
  by (induction x r s rule: replace_escape.induct) auto

lemma has_escape_Cons: "has_escape x s \<Longrightarrow> has_escape x (a # s)"
  by (cases s) auto

lemma has_escape_append2: "has_escape x v \<Longrightarrow> has_escape x (u @ v)"
  by (induction u) (auto simp add: has_escape_Cons)

lemma has_escape_append1: "has_escape x u \<Longrightarrow> has_escape x (u @ v)"
  by (induction x u rule: has_escape.induct) auto

lemma no_escape_dropWhile: "\<not> has_escape x s \<Longrightarrow> \<not> has_escape x (dropWhile P s)"
  using has_escape_append2 [of x "dropWhile P s" "takeWhile P s"] by auto

lemma no_escape_dropWhile_rev:
  "\<not> has_escape x s \<Longrightarrow> \<not> has_escape x (rev (dropWhile P (rev s)))"
proof -
  have "s = rev (dropWhile P (rev s)) @ rev (takeWhile P (rev s))"
    by (metis rev_append rev_rev_ident takeWhile_dropWhile_id)
  then show "\<not> has_escape x s \<Longrightarrow> \<not> has_escape x (rev (dropWhile P (rev s)))"
    using has_escape_append1 by metis
qed

lemma no_escape_trim: "\<not> has_escape x s \<Longrightarrow> \<not> has_escape x (trim s)"
  unfolding trim_def by (intro no_escape_dropWhile_rev no_escape_dropWhile)

lemma has_escape_Cons_other: "r \<noteq> backslash \<Longrightarrow> has_escape x (r # s) = has_escape x s"
  by (cases s) auto

lemma has_escape_hd:
  "has_escape x (a # t) \<longleftrightarrow> (t \<noteq> [] \<and> a = backslash \<and> hd t = x) \<or> has_escape x t"
  by (cases t) auto

lemma hd_replace_escape:
  "replace_escape x r (b # s) \<noteq> [] \<and>
   (hd (replace_escape x r (b # s)) = b \<or> hd (replace_escape x r (b # s)) = r)"
  by (cases s) auto

text \<open>
  Replacing the escapes of \<open>x\<close> by \<open>r\<close> creates no escape of \<open>y\<close>, since the
  code unit put in is neither a backslash nor \<open>y\<close>.
\<close>

lemma no_escape_replace_other:
  "r \<noteq> backslash \<Longrightarrow> r \<noteq> y \<Longrightarrow> \<not> has_escape y s \<Longrightarrow> \<not> has_escape y (replace_escape x r s)"
proof (induction x r s rule: replace_escape.induct)
  case (1 x r a b s)
  show ?case
  proof (cases "a = backslash \<and> b = x")
    case True
    from 1 have "\<not> has_escape y s" by (cases s) auto
    with 1 True show ?thesis by (simp add: has_escape_Cons_other)
  next
    case False
    from 1 have nb: "\<not> has_escape y (b # s)" by auto
    with 1 False have ih: "\<not> has_escape y (replace_escape x r (b # s))" by simp
    from 1 have ab: "\<not> (a = backslash \<and> b = y)" by auto
    have "hd (replace_escape x r (b # s)) = b \<or> hd (replace_escape x r (b # s)) = r"
      using hd_replace_escape [of x r b s] by blast
    with ab 1(3,4) have "\<not> (a = backslash \<and> hd (replace_escape x r (b # s)) = y)" by auto
    moreover from False have "replace_escape x r (a # b # s) = a # replace_escape x r (b # s)"
      by auto
    ultimately show ?thesis using ih by (simp only: has_escape_hd) blast
  qed
qed simp_all

text \<open>After the replacement no escape of \<open>x\<close> is left.\<close>

lemma no_escape_replace_same:
  "r \<noteq> backslash \<Longrightarrow> r \<noteq> x \<Longrightarrow> \<not> has_escape x (replace_escape x r s)"
proof (induction x r s rule: replace_escape.induct)
  case (1 x r a b s)
  show ?case
  proof (cases "a = backslash \<and> b = x")
    case True
    with 1 show ?thesis by (simp add: has_escape_Cons_other)
  next
    case False
    with 1 have ih: "\<not> has_escape x (replace_escape x r (b # s))" by simp
    have "hd (replace_escape x r (b # s)) = b \<or> hd (replace_escape x r (b # s)) = r"
      using hd_replace_escape [of x r b s] by blast
    with False 1(3,4) have "\<not> (a = backslash \<and> hd (replace_escape x r (b # s)) = x)" by auto
    moreover from False have "replace_escape x r (a # b # s) = a # replace_escape x r (b # s)"
      by auto
    ultimately show ?thesis using ih by (simp only: has_escape_hd) blast
  qed
qed simp_all

lemma no_escape_unescape:
  "\<not> has_escape letter_n (unescape s)" "\<not> has_escape letter_t (unescape s)"
  unfolding unescape_def
  by (simp_all add: no_escape_replace_same no_escape_replace_other)

lemma unescape_id:
  "\<not> has_escape letter_n s \<Longrightarrow> \<not> has_escape letter_t s \<Longrightarrow> unescape s = s"
  by (simp add: unescape_def replace_escape_id)

lemma length_replace_escape: "length (replace_escape x r s) \<le> length s"
  by (induction x r s rule: replace_escape.induct) auto

lemma length_unescape: "length (unescape s) \<le> length s"
  unfolding unescape_def
  by (rule order_trans [OF length_replace_escape length_replace_escape])

lemma length_replace_final_apostrophe: "length (replace_final_apostrophe s) \<le> length s"
  by (simp add: replace_final_apostrophe_def)

lemma length_replace_content:
  "test_content s \<Longrightarrow> length (replace_content s) < length s"
  unfolding test_content_def replace_content_def
  by (frule matches_ci_length)
     (auto simp add: lit_def split: list.splits dest!: arg_cong [where f = length])

section \<open>Properties of normalizeResponseText\<close>

lemma normalize_trimmed: "trimmed (normalizeResponseText t)"
  by (simp add: normalizeResponseText_def Let_def trimmed_trim)

lemma normalize_no_escape:
  "\<not> has_escape letter_n (normalizeResponseText t)"
  "\<not> has_escape letter_t (normalizeResponseText t)"
  by (simp_all add: normalizeResponseText_def Let_def no_escape_trim no_escape_unescape)

text \<open>A trimmed text without marker and without escapes is returned as it is.\<close>

lemma normalize_fixed:
  assumes "trimmed y" and "\<not> has_escape letter_n y" and "\<not> has_escape letter_t y"
    and "\<not> test_content y"
  shows "normalizeResponseText (Str y) = y"
  using assms by (simp add: normalizeResponseText_def Let_def trim_trimmed unescape_id)

text \<open>A trimmed text with the marker loses at least the marker.\<close>

lemma normalize_shorter:
  assumes "trimmed y" and "test_content y"
  shows "length (normalizeResponseText (Str y)) < length y"
proof -
  have "length (normalizeResponseText (Str y))
        \<le> length (replace_final_apostrophe (replace_content y))"
    using assms
    by (simp add: normalizeResponseText_def Let_def trim_trimmed)
       (rule order_trans [OF length_trim length_unescape])
  also have "\<dots> \<le> length (replace_content y)" by (rule length_replace_final_apostrophe)
  also have "\<dots> < length y" using assms(2) by (rule length_replace_content)
  finally show ?thesis .
qed

section \<open>Properties of the resolver\<close>

lemma suffix_fromOverride: "suffix (lit ''/api'') (fromOverride u)"
  by (simp add: fromOverride_def Let_def suffix_def)

text \<open>
  When the first retained segment is a route name, \<open>findIndex\<close> stops at index 0,
  the block guarded by \<open>pathParts.length > 1\<close> returns nothing and the base tag
  decides.
\<close>

lemma detectBasePath_fromBaseTag:
  assumes "pathParts pathname = first # rest" and "isAppRoute first"
  shows "detectBasePath pathname baseTag = fromBaseTag baseTag"
  using assms by (simp add: detectBasePath_def beforeRoute_def Let_def)

lemma pathParts_login: "pathParts (lit ''/login'') = [lit ''login'']"
  by (simp add: string_eval pathParts_def cleanPath_def)

lemma isAppRoute_login: "isAppRoute (lit ''login'')"
  by (simp add: string_eval isAppRoute_def APP_ROUTES_def)

lemma fromBaseTag_empty_iff:
  "fromBaseTag baseTag = [] \<longleftrightarrow>
   (\<forall>h. baseTag = BaseTag (Some h) \<longrightarrow> h = lit ''/'' \<or> \<not> prefix (lit ''/'') h)"
proof (cases baseTag)
  case NoBaseTag
  then show ?thesis by (simp add: fromBaseTag_def)
next
  case (BaseTag href)
  show ?thesis
  proof (cases href)
    case None
    with BaseTag show ?thesis by (simp add: fromBaseTag_def)
  next
    case (Some h)
    have "butlast h \<noteq> []" if "prefix (lit ''/'') h" and "h \<noteq> lit ''/''"
      using that by (cases h; cases "tl h") (auto simp add: lit_def)
    with BaseTag Some show ?thesis
      by (auto simp add: fromBaseTag_def Let_def)
  qed
qed

text \<open>
  An href that starts with a slash and is not \<open>/\<close> is returned without one
  slash at its end.
\<close>

lemma fromBaseTag_absolute:
  assumes "prefix (lit ''/'') h" and "h \<noteq> lit ''/''"
  shows "fromBaseTag (BaseTag (Some h)) = (if suffix (lit ''/'') h then butlast h else h)"
proof -
  from assms obtain c cs where h: "h = slash # c # cs"
    by (cases h; cases "tl h") (auto simp add: lit_def)
  have "suffix (lit ''/'') h \<longleftrightarrow> last h = slash"
    unfolding h by (simp add: lit_def suffix_def) (metis append_butlast_last_id last_snoc list.distinct(1) last_ConsR)
  with h show ?thesis
    by (simp add: fromBaseTag_def Let_def lit_def)
qed

lemma guidanceSegments_example:
  "guidanceSegments (lit ''Main text --- System guidance applied: Use IRAC format'')
   = [lit ''Main text'', lit ''System guidance applied: Use IRAC format'']"
  by (simp add: string_eval answer_eval)

section \<open>Claims about normalizeResponseText\<close>

text \<open>
  C1, as stated: for every string \<open>x\<close>, normalising the normalised text gives
  the normalised text again. It fails when the cleaned-up text itself starts
  with the marker: \<open>content=content=abc\<close> is cleaned up to \<open>content=abc\<close>, and
  that to \<open>abc\<close>.
\<close>

theorem normalizeResponseText_not_idempotent:
  "normalizeResponseText (Str (normalizeResponseText (Str (lit ''content=content=abc''))))
   \<noteq> normalizeResponseText (Str (lit ''content=content=abc''))"
  by (simp add: string_eval normalize_eval)

text \<open>
  C1, amended: for every string \<open>x\<close>, normalising the normalised text gives the
  normalised text again exactly when the normalised text does not begin,
  ignoring case, with the marker \<open>content=\<close>.
\<close>

theorem normalizeResponseText_idempotent_iff:
  "normalizeResponseText (Str (normalizeResponseText (Str x))) = normalizeResponseText (Str x)
   \<longleftrightarrow> \<not> test_content (normalizeResponseText (Str x))"
proof
  assume eq: "normalizeResponseText (Str (normalizeResponseText (Str x)))
              = normalizeResponseText (Str x)"
  show "\<not> test_content (normalizeResponseText (Str x))"
  proof
    assume "test_content (normalizeResponseText (Str x))"
    with normalize_trimmed
    have "length (normalizeResponseText (Str (normalizeResponseText (Str x))))
          < length (normalizeResponseText (Str x))"
      by (rule normalize_shorter)
    with eq show False by simp
  qed
next
  assume "\<not> test_content (normalizeResponseText (Str x))"
  with normalize_trimmed normalize_no_escape
  show "normalizeResponseText (Str (normalizeResponseText (Str x)))
        = normalizeResponseText (Str x)"
    by (rule normalize_fixed)
qed

theorem normalizeResponseText_idempotent_iff_witness:
  "\<not> test_content (normalizeResponseText
        (Str (lit ''  content='' @ [apostrophe] @ lit ''Hello'' @ [backslash, letter_n] @ lit ''World'' @ [apostrophe])))
   \<and> normalizeResponseText (Str (normalizeResponseText
        (Str (lit ''  content='' @ [apostrophe] @ lit ''Hello'' @ [backslash, letter_n] @ lit ''World'' @ [apostrophe]))))
     = normalizeResponseText
        (Str (lit ''  content='' @ [apostrophe] @ lit ''Hello'' @ [backslash, letter_n] @ lit ''World'' @ [apostrophe]))"
  using normalizeResponseText_idempotent_iff
    [of "lit ''  content='' @ [apostrophe] @ lit ''Hello'' @ [backslash, letter_n] @ lit ''World'' @ [apostrophe]"]
  by (simp add: string_eval normalize_eval)

text \<open>
  C6, as stated: an input that begins, ignoring case, with \<open>content=\<close> has the
  marker and one apostrophe after it stripped, then one apostrophe at its end,
  then its escapes replaced, and the result trimmed. The function trims the
  input before it strips anything, so white space after a closing apostrophe
  does not protect the apostrophe: for \<open>content='a'\<close> followed by one space the
  function returns \<open>a\<close>, the steps of the claim give \<open>a'\<close>.
\<close>

theorem normalizeResponseText_wrapper_counterexample:
  "test_content (lit ''content='a' '')
   \<and> normalizeResponseText (Str (lit ''content='a' ''))
      \<noteq> trim (unescape (replace_final_apostrophe (replace_content (lit ''content='a' ''))))"
  by (simp add: string_eval normalize_eval)

text \<open>
  C6, amended: for every input that begins, ignoring case, with \<open>content=\<close>, the
  function trims the input, strips the marker and one apostrophe right after
  it, strips one apostrophe at the end if there is one, replaces every escape
  backslash-n by a newline and every escape backslash-t by a tab, and trims the
  result.
\<close>

theorem normalizeResponseText_wrapper:
  assumes "test_content x"
  shows "normalizeResponseText (Str x) =
         trim (unescape (replace_final_apostrophe (replace_content (trim x))))"
  using test_content_trim [OF assms] by (simp add: normalizeResponseText_def Let_def)

text \<open>The example of C6: \<open>content='Hello\nWorld'\<close> with a literal backslash and n.\<close>

theorem normalizeResponseText_wrapper_witness:
  "test_content (lit ''content='' @ [apostrophe] @ lit ''Hello'' @ [backslash, letter_n]
                 @ lit ''World'' @ [apostrophe])
   \<and> normalizeResponseText (Str (lit ''content='' @ [apostrophe] @ lit ''Hello''
                 @ [backslash, letter_n] @ lit ''World'' @ [apostrophe]))
      = lit ''Hello'' @ [newline] @ lit ''World''"
proof -
  have t: "test_content (lit ''content='' @ [apostrophe] @ lit ''Hello'' @ [backslash, letter_n]
                 @ lit ''World'' @ [apostrophe])"
    by (simp add: string_eval normalize_eval)
  from normalizeResponseText_wrapper [OF t] t show ?thesis
    by (simp add: string_eval normalize_eval)
qed

text \<open>
  C8, as stated: for every input the function raises no error. The number 123,
  which can arrive through the untyped \<open>response.data.answer\<close>, is truthy and
  has no \<open>trim\<close>: the call throws a TypeError.
\<close>

theorem normalizeResponseText_untyped_counterexample:
  "normalizeResponseText_untyped (Number 123) = Inl TypeError"
  by (simp add: normalizeResponseText_untyped_def)

text \<open>
  C8, amended: for every input that is a string, null or undefined, which is
  what the parameter type admits, and for every other falsy value, the function
  raises no error; a null or undefined input is treated as the empty string
  and yields the empty string. The function throws, a TypeError, exactly on the
  truthy values that are not strings.
\<close>

theorem normalizeResponseText_untyped_no_error:
  "(normalizeResponseText_untyped v = Inl TypeError \<longleftrightarrow> truthy v \<and> (\<forall>a. v \<noteq> Typed a))
   \<and> normalizeResponseText_untyped (Typed a) = Inr (normalizeResponseText (Str (or_empty a)))
   \<and> (\<not> truthy v \<longrightarrow> normalizeResponseText_untyped v = Inr [])
   \<and> normalizeResponseText_untyped (Typed Undefined) = Inr []
   \<and> normalizeResponseText_untyped (Typed Null) = Inr []
   \<and> normalizeResponseText_untyped (Typed (Str [])) = Inr []"
proof -
  have empty: "normalizeResponseText (Str []) = []"
    by (simp add: string_eval normalize_eval)
  have typed: "normalizeResponseText_untyped (Typed b)
               = Inr (normalizeResponseText (Str (or_empty b)))" for b
    by (cases b) (simp_all add: normalizeResponseText_untyped_def normalizeResponseText_def)
  have err: "normalizeResponseText_untyped v = Inl TypeError
             \<longleftrightarrow> truthy v \<and> (\<forall>a. v \<noteq> Typed a)"
    by (cases v) (simp_all add: normalizeResponseText_untyped_def)
  have falsy: "\<not> truthy v \<longrightarrow> normalizeResponseText_untyped v = Inr []"
    by (simp add: normalizeResponseText_untyped_def empty)
  from err typed falsy show ?thesis
    by (simp add: empty)
qed

text \<open>
  A string and a falsy number are cleaned up without error; an array or an
  object is not.
\<close>

theorem normalizeResponseText_untyped_no_error_witness:
  "normalizeResponseText_untyped (Typed (Str (lit '' Main text ''))) = Inr (lit ''Main text'')
   \<and> \<not> truthy (Number 0) \<and> normalizeResponseText_untyped (Number 0) = Inr []
   \<and> truthy Object \<and> normalizeResponseText_untyped Object = Inl TypeError"
  using normalizeResponseText_untyped_no_error [of "Number 0" "Str (lit '' Main text '')"]
        normalizeResponseText_untyped_no_error [of Object Null]
  by (simp add: string_eval normalize_eval)

section \<open>Claims about handleSubmit\<close>

text \<open>
  C3: when the raw answer, split on \<open>---\<close> with every piece trimmed and the empty
  pieces dropped, has two or more pieces, the main content is the first piece
  cleaned up, and the guidance is the other pieces joined with \<open>' --- '\<close>, without
  a leading label \<open>System guidance applied:\<close> (in any case) and the white space
  after it, cleaned up.
\<close>

theorem handleSubmit_answer_guidance:
  assumes "length (guidanceSegments rawAnswer) \<ge> 2"
  shows "handleSubmit_answer rawAnswer =
     \<lparr> mainContent = normalizeResponseText (Str (hd (guidanceSegments rawAnswer))),
       systemGuidance = Some (normalizeResponseText (Str (replace_guidance_label
          (js_join (lit '' --- '') (tl (guidanceSegments rawAnswer)))))) \<rparr>"
  using assms by (simp add: handleSubmit_answer_def Let_def)

text \<open>The example of C3.\<close>

theorem handleSubmit_answer_guidance_witness:
  "length (guidanceSegments (lit ''Main text --- System guidance applied: Use IRAC format'')) \<ge> 2
   \<and> handleSubmit_answer (lit ''Main text --- System guidance applied: Use IRAC format'')
     = \<lparr> mainContent = lit ''Main text'', systemGuidance = Some (lit ''Use IRAC format'') \<rparr>"
proof -
  have l: "length (guidanceSegments
                    (lit ''Main text --- System guidance applied: Use IRAC format'')) \<ge> 2"
    by (simp add: guidanceSegments_example)
  from handleSubmit_answer_guidance [OF l] l show ?thesis
    by (simp add: guidanceSegments_example)
       (simp add: string_eval normalize_eval replace_guidance_label_def)
qed

text \<open>
  C4: when the split gives fewer than two pieces, the main content is the whole
  raw answer cleaned up and the guidance stays undefined.
\<close>

theorem handleSubmit_answer_no_guidance:
  assumes "length (guidanceSegments rawAnswer) < 2"
  shows "handleSubmit_answer rawAnswer =
     \<lparr> mainContent = normalizeResponseText (Str rawAnswer), systemGuidance = None \<rparr>"
  using assms by (simp add: handleSubmit_answer_def Let_def)

text \<open>The example of C4.\<close>

theorem handleSubmit_answer_no_guidance_witness:
  "length (guidanceSegments (lit ''Main text'')) < 2
   \<and> handleSubmit_answer (lit ''Main text'')
     = \<lparr> mainContent = lit ''Main text'', systemGuidance = None \<rparr>"
proof -
  have l: "length (guidanceSegments (lit ''Main text'')) < 2"
    by (simp add: string_eval answer_eval)
  from handleSubmit_answer_no_guidance [OF l] l show ?thesis
    by (simp add: string_eval normalize_eval)
qed

section \<open>Claims about getApiBaseUrl and detectBasePath\<close>

text \<open>
  C2: when \<open>REACT_APP_API_BASE_URL\<close> is set to \<open>u\<close>, the result is \<open>u\<close> trimmed
  and without one slash at its end, followed by \<open>/api\<close> unless it ends with
  \<open>/api\<close> already; the public URL, the page path and the base tag do not
  matter.
\<close>

theorem getApiBaseUrl_override:
  assumes "REACT_APP_API_BASE_URL env = Some u" and "u \<noteq> []"
  shows "getApiBaseUrl env pathname baseTag =
           (let cleaned = (if suffix (lit ''/'') (trim u) then butlast (trim u) else trim u)
            in if suffix (lit ''/api'') cleaned then cleaned else cleaned @ lit ''/api'')
         \<and> getApiBaseUrl env pathname baseTag
           = getApiBaseUrl (env\<lparr>PUBLIC_URL := publicUrl'\<rparr>) pathname' baseTag'"
  using assms
  by (cases u) (simp_all add: getApiBaseUrl_def fromOverride_def dropFinalSlash_def Let_def)

text \<open>The two examples of C2.\<close>

theorem getApiBaseUrl_override_witness:
  "getApiBaseUrl \<lparr>REACT_APP_API_BASE_URL = Some (lit ''https://api.example.com/api/''),
                   PUBLIC_URL = Some (lit ''/PatriotAI'')\<rparr> (lit ''/PatriotAI/ask-ai'') NoBaseTag
     = lit ''https://api.example.com/api''
   \<and> getApiBaseUrl \<lparr>REACT_APP_API_BASE_URL = Some (lit ''https://api.example.com''),
                   PUBLIC_URL = Some (lit ''/PatriotAI'')\<rparr> (lit ''/PatriotAI/ask-ai'') NoBaseTag
     = lit ''https://api.example.com/api''"
  using getApiBaseUrl_override
          [of "\<lparr>REACT_APP_API_BASE_URL = Some (lit ''https://api.example.com/api/''),
                 PUBLIC_URL = Some (lit ''/PatriotAI'')\<rparr>" "lit ''https://api.example.com/api/''"
              "lit ''/PatriotAI/ask-ai''" NoBaseTag]
        getApiBaseUrl_override
          [of "\<lparr>REACT_APP_API_BASE_URL = Some (lit ''https://api.example.com''),
                 PUBLIC_URL = Some (lit ''/PatriotAI'')\<rparr>" "lit ''https://api.example.com''"
              "lit ''/PatriotAI/ask-ai''" NoBaseTag]
  by (simp add: string_eval)

text \<open>
  C5: with no override and no public URL other than \<open>/\<close>, a page path whose
  first retained segment is not a route name, ignoring case, gives
  \<open>/<firstSegment>/api\<close>.
\<close>

theorem getApiBaseUrl_first_segment:
  assumes "REACT_APP_API_BASE_URL env = None \<or> REACT_APP_API_BASE_URL env = Some []"
    and "PUBLIC_URL env = None \<or> PUBLIC_URL env = Some [] \<or> PUBLIC_URL env = Some (lit ''/'')"
    and "pathParts pathname = first # rest"
    and "\<not> isAppRoute first"
  shows "getApiBaseUrl env pathname baseTag = lit ''/'' @ first @ lit ''/api''"
  using assms
  by (auto simp add: getApiBaseUrl_def detectBasePath_def Let_def)

text \<open>The example of C5.\<close>

theorem getApiBaseUrl_first_segment_witness:
  "pathParts (lit ''/PatriotAI/ask-ai'') = lit ''PatriotAI'' # [lit ''ask-ai'']
   \<and> \<not> isAppRoute (lit ''PatriotAI'')
   \<and> getApiBaseUrl \<lparr>REACT_APP_API_BASE_URL = None, PUBLIC_URL = Some (lit ''/'')\<rparr>
        (lit ''/PatriotAI/ask-ai'') NoBaseTag = lit ''/PatriotAI/api''"
proof -
  have p: "pathParts (lit ''/PatriotAI/ask-ai'') = lit ''PatriotAI'' # [lit ''ask-ai'']"
    by (simp add: string_eval pathParts_def cleanPath_def)
  have r: "\<not> isAppRoute (lit ''PatriotAI'')"
    by (simp add: string_eval isAppRoute_def APP_ROUTES_def)
  have "getApiBaseUrl \<lparr>REACT_APP_API_BASE_URL = None, PUBLIC_URL = Some (lit ''/'')\<rparr>
        (lit ''/PatriotAI/ask-ai'') NoBaseTag = lit ''/'' @ lit ''PatriotAI'' @ lit ''/api''"
    by (rule getApiBaseUrl_first_segment [OF _ _ p r]) simp_all
  with p r show ?thesis by (simp add: lit_def)
qed

text \<open>
  C7, as stated: with no override and no public URL other than \<open>/\<close>, the page
  path \<open>/login\<close> gives \<open>/api\<close>. There the function falls through to the base
  tag, and a document with \<open><base href="/PatriotAI/">\<close> gives \<open>/PatriotAI/api\<close>.
\<close>

theorem getApiBaseUrl_login_counterexample:
  "getApiBaseUrl \<lparr>REACT_APP_API_BASE_URL = None, PUBLIC_URL = None\<rparr> (lit ''/login'')
     (BaseTag (Some (lit ''/PatriotAI/''))) = lit ''/PatriotAI/api''
   \<and> getApiBaseUrl \<lparr>REACT_APP_API_BASE_URL = None, PUBLIC_URL = None\<rparr> (lit ''/login'')
     (BaseTag (Some (lit ''/PatriotAI/''))) \<noteq> lit ''/api''"
  by (simp add: string_eval api_eval)

text \<open>
  C7, amended: with no override and no public URL other than \<open>/\<close>, the page
  path \<open>/login\<close> gives \<open>/api\<close> exactly when the document has no base tag whose
  href starts with a slash and is not \<open>/\<close>; with such a base tag the href
  without its trailing slash is the subpath, so the result is that followed by
  \<open>/api\<close>.
\<close>

theorem getApiBaseUrl_login:
  assumes "REACT_APP_API_BASE_URL env = None \<or> REACT_APP_API_BASE_URL env = Some []"
    and "PUBLIC_URL env = None \<or> PUBLIC_URL env = Some [] \<or> PUBLIC_URL env = Some (lit ''/'')"
  shows "(getApiBaseUrl env (lit ''/login'') baseTag = lit ''/api''
          \<longleftrightarrow> (\<forall>h. baseTag = BaseTag (Some h) \<longrightarrow> h = lit ''/'' \<or> \<not> prefix (lit ''/'') h))
         \<and> (\<forall>h. baseTag = BaseTag (Some h) \<and> prefix (lit ''/'') h \<and> h \<noteq> lit ''/''
               \<longrightarrow> getApiBaseUrl env (lit ''/login'') baseTag
                   = (if suffix (lit ''/'') h then butlast h else h) @ lit ''/api'')"
proof -
  have "detectBasePath (lit ''/login'') baseTag = fromBaseTag baseTag"
    using pathParts_login isAppRoute_login by (rule detectBasePath_fromBaseTag)
  with assms
  have r: "getApiBaseUrl env (lit ''/login'') baseTag = fromBaseTag baseTag @ lit ''/api''"
    by (auto simp add: getApiBaseUrl_def Let_def)
  then have "getApiBaseUrl env (lit ''/login'') baseTag = lit ''/api''
        \<longleftrightarrow> (\<forall>h. baseTag = BaseTag (Some h) \<longrightarrow> h = lit ''/'' \<or> \<not> prefix (lit ''/'') h)"
    by (simp add: fromBaseTag_empty_iff [symmetric])
  moreover have "getApiBaseUrl env (lit ''/login'') baseTag
                 = (if suffix (lit ''/'') h then butlast h else h) @ lit ''/api''"
    if "baseTag = BaseTag (Some h)" and "prefix (lit ''/'') h" and "h \<noteq> lit ''/''" for h
    using that r by (simp add: fromBaseTag_absolute)
  ultimately show ?thesis by blast
qed

text \<open>
  A base tag with href \<open>/\<close> and no base tag give \<open>/api\<close>; the hrefs \<open>/app\<close>
  and \<open>/app/\<close> give \<open>/app/api\<close>.
\<close>

theorem getApiBaseUrl_login_witness:
  "getApiBaseUrl \<lparr>REACT_APP_API_BASE_URL = None, PUBLIC_URL = None\<rparr> (lit ''/login'')
     (BaseTag (Some (lit ''/''))) = lit ''/api''
   \<and> getApiBaseUrl \<lparr>REACT_APP_API_BASE_URL = Some [], PUBLIC_URL = Some (lit ''/'')\<rparr>
     (lit ''/login'') NoBaseTag = lit ''/api''
   \<and> getApiBaseUrl \<lparr>REACT_APP_API_BASE_URL = None, PUBLIC_URL = None\<rparr> (lit ''/login'')
     (BaseTag (Some (lit ''/app''))) = lit ''/app/api''
   \<and> getApiBaseUrl \<lparr>REACT_APP_API_BASE_URL = None, PUBLIC_URL = None\<rparr> (lit ''/login'')
     (BaseTag (Some (lit ''/app/''))) = lit ''/app/api''"
  using getApiBaseUrl_login [of "\<lparr>REACT_APP_API_BASE_URL = None, PUBLIC_URL = None\<rparr>"
                              "BaseTag (Some (lit ''/''))"]
        getApiBaseUrl_login [of "\<lparr>REACT_APP_API_BASE_URL = Some [], PUBLIC_URL = Some (lit ''/'')\<rparr>"
                              NoBaseTag]
        getApiBaseUrl_login [of "\<lparr>REACT_APP_API_BASE_URL = None, PUBLIC_URL = None\<rparr>"
                              "BaseTag (Some (lit ''/app''))"]
        getApiBaseUrl_login [of "\<lparr>REACT_APP_API_BASE_URL = None, PUBLIC_URL = None\<rparr>"
                              "BaseTag (Some (lit ''/app/''))"]
  by (simp add: lit_def suffix_to_prefix)

text \<open>
  C9: whatever the override, the public URL, the page path and the base tag
  are, the result ends with \<open>/api\<close>.
\<close>

theorem getApiBaseUrl_ends_with_api:
  "suffix (lit ''/api'') (getApiBaseUrl env pathname baseTag)"
  by (simp add: getApiBaseUrl_def Let_def suffix_fromOverride suffixI
      split: option.splits list.splits)

text \<open>One environment for each of the three options.\<close>

theorem getApiBaseUrl_ends_with_api_witness:
  "suffix (lit ''/api'') (getApiBaseUrl
       \<lparr>REACT_APP_API_BASE_URL = Some (lit ''https://api.example.com/''), PUBLIC_URL = None\<rparr>
       (lit ''/'') NoBaseTag)
   \<and> suffix (lit ''/api'') (getApiBaseUrl
       \<lparr>REACT_APP_API_BASE_URL = None, PUBLIC_URL = Some (lit ''/PatriotAI/'')\<rparr>
       (lit ''/'') NoBaseTag)
   \<and> suffix (lit ''/api'') (getApiBaseUrl
       \<lparr>REACT_APP_API_BASE_URL = None, PUBLIC_URL = None\<rparr>
       (lit ''/PatriotAI/login'') NoBaseTag)"
  by (intro conjI getApiBaseUrl_ends_with_api)

text \<open>
  C10: two page paths whose first retained segment is a route name, ignoring
  case, get the same base path under the same base tag, whatever follows the
  first segment: \<open>findIndex\<close> answers 0, so the block that would return the
  segments before a later route name returns nothing.
\<close>

theorem detectBasePath_route_first:
  assumes "pathParts pathname1 = first1 # rest1" and "isAppRoute first1"
    and "pathParts pathname2 = first2 # rest2" and "isAppRoute first2"
  shows "detectBasePath pathname1 baseTag = detectBasePath pathname2 baseTag
       \<and> findIndex isAppRoute (pathParts pathname1) = 0
       \<and> beforeRoute (pathParts pathname1) = None"
  using assms by (simp add: detectBasePath_fromBaseTag beforeRoute_def Let_def)

theorem detectBasePath_route_first_witness:
  "pathParts (lit ''/login/PatriotAI/ask-ai'') = lit ''login'' # [lit ''PatriotAI'', lit ''ask-ai'']
   \<and> isAppRoute (lit ''login'')
   \<and> pathParts (lit ''/Dashboard/index.html'') = lit ''Dashboard'' # []
   \<and> isAppRoute (lit ''Dashboard'')
   \<and> detectBasePath (lit ''/login/PatriotAI/ask-ai'') (BaseTag (Some (lit ''/PatriotAI/'')))
     = detectBasePath (lit ''/Dashboard/index.html'') (BaseTag (Some (lit ''/PatriotAI/'')))
   \<and> findIndex isAppRoute (pathParts (lit ''/login/PatriotAI/ask-ai'')) = 0"
proof -
  have p1: "pathParts (lit ''/login/PatriotAI/ask-ai'')
            = lit ''login'' # [lit ''PatriotAI'', lit ''ask-ai'']"
    by (simp add: string_eval pathParts_def cleanPath_def)
  have r1: "isAppRoute (lit ''login'')"
    by (rule isAppRoute_login)
  have p2: "pathParts (lit ''/Dashboard/index.html'') = lit ''Dashboard'' # []"
    by (simp add: string_eval pathParts_def cleanPath_def)
  have r2: "isAppRoute (lit ''Dashboard'')"
    by (simp add: string_eval isAppRoute_def APP_ROUTES_def)
  from detectBasePath_route_first [OF p1 r1 p2 r2, of "BaseTag (Some (lit ''/PatriotAI/''))"]
    p1 r1 p2 r2
  show ?thesis by simp
qed

end
